theory Spec2Isabelle
  imports Main
begin

text \<open>
  A shallow embedding of the reactivity core of Vue 2.6.10: the update scheduler
  (\<^verbatim>\<open>core/observer/scheduler.js\<close>), the watcher (\<^verbatim>\<open>core/observer/watcher.js\<close>) and the
  observer (\<^verbatim>\<open>core/observer/index.js\<close>), with the properties of the specification proved
  about them.
\<close>

section \<open>Scheduler (src/core/observer/scheduler.js)\<close>

text \<open>
  Watchers are identified by their \<open>id\<close> (assigned from the counter \<open>++uid\<close> in the
  Watcher constructor, so two watchers never share one). The queue holds watchers; the model
  holds their ids.
\<close>

type_synonym wid = nat

text \<open>
  The configuration the core reads: \<open>process.env.NODE_ENV === 'production'\<close>,
  \<open>config.async\<close> and \<open>isServerRendering()\<close>.
\<close>

record config =
  production :: bool
  async :: bool
  server :: bool

text \<open>
  What the scheduler calls but does not define: \<open>watcher.before\<close> (optional) and
  \<open>watcher.run()\<close>. Both are code of the surrounding system; for the scheduler all that
  matters is how they change the rest of the world (the environment \<open>'e\<close>) and which
  watchers they pass to \<open>queueWatcher\<close> while they execute, in call order. The module
  variables of the scheduler are private, so nothing else of the scheduler is visible to them.
  The model covers callbacks that return normally.
\<close>

record 'e behaviour =
  before_hook :: "wid \<Rightarrow> ('e \<Rightarrow> 'e \<times> wid list) option"
  run_fn :: "wid \<Rightarrow> 'e \<Rightarrow> 'e \<times> wid list"

text \<open>
  The module state: \<open>queue\<close>, \<open>has\<close>, \<open>circular\<close>, \<open>waiting\<close>, \<open>flushing\<close>, \<open>index\<close>.
  \<open>has[id] == null\<close> holds for a missing entry and for the entry \<open>null\<close> alike, so both are
  \<open>None\<close>. Added for observation: the environment, the trace \<open>ran\<close> of \<open>watcher.run()\<close>
  calls, the trace \<open>warned\<close> of \<open>warn\<close> calls (the watcher warned about) and the number
  \<open>ticks\<close> of \<open>nextTick(flushSchedulerQueue)\<close> registrations.
\<close>

record 'e sched =
  queue :: "wid list"
  has :: "wid \<rightharpoonup> bool"
  circular :: "wid \<rightharpoonup> nat"
  waiting :: bool
  flushing :: bool
  index :: nat
  env :: 'e
  ran :: "wid list"
  warned :: "wid list"
  ticks :: nat

definition MAX_UPDATE_COUNT :: nat where
  "MAX_UPDATE_COUNT = 100"

text \<open>\<open>resetSchedulerState\<close>; \<open>circular\<close> is only reset outside production.\<close>

definition resetSchedulerState :: "config \<Rightarrow> 'e sched \<Rightarrow> 'e sched" where
  "resetSchedulerState cfg s =
     s\<lparr>index := 0, queue := [], has := Map.empty,
       circular := (if \<not> production cfg then Map.empty else circular s),
       waiting := False, flushing := False\<rparr>"

text \<open>
  The search loop of \<open>queueWatcher\<close>:
  \<^verbatim>\<open>let i = queue.length - 1; while (i > index && queue[i].id > watcher.id) i--\<close>.
  The last argument is \<open>i + 1\<close> (so that \<open>i = -1\<close>, on an empty queue, is \<open>0\<close>), and so
  is the result: the position given to \<open>splice\<close>.
\<close>

primrec scan :: "wid list \<Rightarrow> nat \<Rightarrow> wid \<Rightarrow> nat \<Rightarrow> nat" where
  "scan q idx w 0 = 0"
| "scan q idx w (Suc i) = (if i > idx \<and> q ! i > w then scan q idx w i else Suc i)"

text \<open>\<open>xs.splice(k, 0, x)\<close>.\<close>

definition splice :: "nat \<Rightarrow> 'a \<Rightarrow> 'a list \<Rightarrow> 'a list" where
  "splice k x xs = take k xs @ x # drop k xs"

text \<open>The body of \<open>if (has[id] == null)\<close> in \<open>queueWatcher\<close>, up to "queue the flush".\<close>

definition enqueue :: "wid \<Rightarrow> 'e sched \<Rightarrow> 'e sched" where
  "enqueue w s =
     (let s1 = s\<lparr>has := (has s)(w \<mapsto> True)\<rparr>
      in if \<not> flushing s1 then s1\<lparr>queue := queue s1 @ [w]\<rparr>
         else s1\<lparr>queue := splice (scan (queue s1) (index s1) w (length (queue s1))) w (queue s1)\<rparr>)"

text \<open>The expression \<open>circular[id] || 0\<close>.\<close>

definition cnt :: "'e sched \<Rightarrow> wid \<Rightarrow> nat" where
  "cnt s w = (case circular s w of None \<Rightarrow> 0 | Some n \<Rightarrow> n)"

text \<open>
  \<open>queueWatcher\<close> and \<open>flushSchedulerQueue\<close> call each other (\<open>queueWatcher\<close> flushes
  synchronously outside production when \<open>config.async\<close> is off; the flush runs watchers,
  which call \<open>queueWatcher\<close>), and the \<open>for\<close> loop of the flush need not end. They are
  one partial function on a job: \<open>QueueWatchers ws\<close> is the sequence of calls
  \<open>queueWatcher(w)\<close> for \<open>w\<close> in \<open>ws\<close>, \<open>FlushSchedulerQueue\<close> is
  \<open>flushSchedulerQueue()\<close> up to and including \<open>resetSchedulerState()\<close>, and
  \<open>DrainLoop\<close> is its \<open>for\<close> loop from the current \<open>index\<close> on. The result \<open>None\<close>
  means that the call does not return. The \<open>break\<close> of the loop leaves \<open>index\<close> where it
  is. The hooks called after the reset (\<open>callActivatedHooks\<close>, \<open>callUpdatedHooks\<close>, devtools) are
  not part of the model.
\<close>

datatype job = QueueWatchers "wid list" | FlushSchedulerQueue | DrainLoop

partial_function (option) exec ::
  "config \<Rightarrow> 'e behaviour \<Rightarrow> job \<Rightarrow> 'e sched \<Rightarrow> 'e sched option"
where
  "exec cfg beh j s =
     (case j of
        QueueWatchers ws \<Rightarrow>
          (case ws of
             [] \<Rightarrow> Some s
           | w # rest \<Rightarrow>
               if has s w = None then
                 let s2 = enqueue w s
                 in if \<not> waiting s2 then
                      let s3 = s2\<lparr>waiting := True\<rparr>
                      in if \<not> production cfg \<and> \<not> async cfg then
                           Option.bind (exec cfg beh FlushSchedulerQueue s3)
                             (exec cfg beh (QueueWatchers rest))
                         else exec cfg beh (QueueWatchers rest) (s3\<lparr>ticks := Suc (ticks s3)\<rparr>)
                    else exec cfg beh (QueueWatchers rest) s2
               else exec cfg beh (QueueWatchers rest) s)
      | FlushSchedulerQueue \<Rightarrow>
          Option.bind
            (exec cfg beh DrainLoop (s\<lparr>flushing := True, queue := sort (queue s), index := 0\<rparr>))
            (\<lambda>s'. Some (resetSchedulerState cfg s'))
      | DrainLoop \<Rightarrow>
          if index s < length (queue s) then
            let w = queue s ! index s
            in Option.bind
                 (case before_hook beh w of
                    None \<Rightarrow> Some s
                  | Some b \<Rightarrow>
                      exec cfg beh (QueueWatchers (snd (b (env s)))) (s\<lparr>env := fst (b (env s))\<rparr>))
                 (\<lambda>s1.
                    let s2 = s1\<lparr>has := (has s1)(w := None)\<rparr>;
                        r = run_fn beh w (env s2)
                    in Option.bind
                         (exec cfg beh (QueueWatchers (snd r)) (s2\<lparr>env := fst r, ran := ran s2 @ [w]\<rparr>))
                         (\<lambda>s3.
                            if \<not> production cfg \<and> has s3 w \<noteq> None then
                              let c = cnt s3 w + 1;
                                  s4 = s3\<lparr>circular := (circular s3)(w \<mapsto> c)\<rparr>
                              in if c > MAX_UPDATE_COUNT then
                                   Some (s4\<lparr>warned := warned s4 @ [w]\<rparr>)
                                 else exec cfg beh DrainLoop (s4\<lparr>index := Suc (index s4)\<rparr>)
                            else exec cfg beh DrainLoop (s3\<lparr>index := Suc (index s3)\<rparr>)))
          else Some s)"

definition queueWatcher :: "config \<Rightarrow> 'e behaviour \<Rightarrow> wid \<Rightarrow> 'e sched \<Rightarrow> 'e sched option" where
  "queueWatcher cfg beh w s = exec cfg beh (QueueWatchers [w]) s"

definition flushSchedulerQueue :: "config \<Rightarrow> 'e behaviour \<Rightarrow> 'e sched \<Rightarrow> 'e sched option" where
  "flushSchedulerQueue cfg beh s = exec cfg beh FlushSchedulerQueue s"

subsection \<open>Auxiliary notions for the scheduler proofs\<close>

text \<open>
  While \<open>waiting\<close> is set (it is from the \<open>queueWatcher\<close> call that schedules a flush until
  \<open>resetSchedulerState\<close>), \<open>queueWatcher\<close> never starts a flush itself and is the total
  function \<open>queueWatcher_core\<close>; \<open>enqueue_all\<close> is a sequence of such calls.
\<close>

definition queueWatcher_core :: "wid \<Rightarrow> 'e sched \<Rightarrow> 'e sched" where
  "queueWatcher_core w s = (if has s w = None then enqueue w s else s)"

definition enqueue_all :: "wid list \<Rightarrow> 'e sched \<Rightarrow> 'e sched" where
  "enqueue_all ws s = fold queueWatcher_core ws s"

text \<open>\<open>trim w xs\<close> is \<open>xs\<close> without its trailing entries greater than \<open>w\<close>: what \<open>scan\<close> skips.\<close>

definition trim :: "wid \<Rightarrow> wid list \<Rightarrow> wid list" where
  "trim w xs = rev (dropWhile (\<lambda>x. w < x) (rev xs))"

text \<open>
  One iteration of the drain loop while \<open>waiting\<close> is set: \<open>run_phase\<close> is the state after
  \<open>watcher.run()\<close>, \<open>after_check\<close> the circular-update check, with the flag saying whether
  the loop was left by \<open>break\<close>.
\<close>

definition run_phase :: "'e behaviour \<Rightarrow> 'e sched \<Rightarrow> 'e sched" where
  "run_phase beh s =
     (let w = queue s ! index s;
          s1 = (case before_hook beh w of
                  None \<Rightarrow> s
                | Some b \<Rightarrow> enqueue_all (snd (b (env s))) (s\<lparr>env := fst (b (env s))\<rparr>));
          s2 = s1\<lparr>has := (has s1)(w := None)\<rparr>;
          r = run_fn beh w (env s2)
      in enqueue_all (snd r) (s2\<lparr>env := fst r, ran := ran s2 @ [w]\<rparr>))"

definition after_check :: "config \<Rightarrow> 'e sched \<Rightarrow> wid \<Rightarrow> 'e sched \<times> bool" where
  "after_check cfg s3 w =
     (if \<not> production cfg \<and> has s3 w \<noteq> None then
        let s4 = s3\<lparr>circular := (circular s3)(w \<mapsto> cnt s3 w + 1)\<rparr>
        in if cnt s3 w + 1 > MAX_UPDATE_COUNT then (s4\<lparr>warned := warned s4 @ [w]\<rparr>, True)
           else (s4\<lparr>index := Suc (index s4)\<rparr>, False)
      else (s3\<lparr>index := Suc (index s3)\<rparr>, False))"

text \<open>
  The invariant of a flush for two watchers \<open>P\<close> and \<open>C\<close>, at cursor position \<open>k\<close>: the
  unprocessed entries are distinct and all in \<open>has\<close>, \<open>P\<close> occurs in the queue before
  the first \<open>C\<close>, and the trace of this flush is the processed part of the queue.
\<close>

definition flush_inv :: "wid \<Rightarrow> wid \<Rightarrow> wid list \<Rightarrow> nat \<Rightarrow> 'e sched \<Rightarrow> bool" where
  "flush_inv P C r0 k s \<longleftrightarrow>
     flushing s \<and> k \<le> length (queue s) \<and> distinct (drop k (queue s)) \<and>
     (\<forall>x \<in> set (drop k (queue s)). has s x \<noteq> None) \<and>
     C \<in> set (queue s) \<and> P \<in> set (takeWhile (\<lambda>x. x \<noteq> C) (queue s)) \<and>
     ran s = r0 @ take k (queue s)"

text \<open>
  Three more invariants of a flush at cursor position \<open>k\<close>. \<open>asc_inv\<close>: the whole queue is
  sorted and distinct (which the splice keeps as long as only greater ids are queued), the
  unprocessed entries are in \<open>has\<close>, and the trace is the processed part of the queue.
  \<open>cnt_inv\<close>: the queue holds the watcher \<open>w\<close> exactly \<open>c\<close> times. \<open>behind\<close>: outside
  production, for a watcher \<open>c\<close> at the cursor that queues itself whenever it runs, the entry
  behind the cursor is \<open>c\<close> again (when \<open>c\<close> is in \<open>has\<close>), and every later entry is greater.
\<close>

definition asc_inv :: "wid list \<Rightarrow> nat \<Rightarrow> 'e sched \<Rightarrow> bool" where
  "asc_inv r0 k s \<longleftrightarrow>
     flushing s \<and> k \<le> length (queue s) \<and> sorted (queue s) \<and> distinct (queue s) \<and>
     (\<forall>x \<in> set (drop k (queue s)). has s x \<noteq> None) \<and> ran s = r0 @ take k (queue s)"

definition cnt_inv :: "wid \<Rightarrow> nat \<Rightarrow> wid list \<Rightarrow> nat \<Rightarrow> 'e sched \<Rightarrow> bool" where
  "cnt_inv w c r0 k s \<longleftrightarrow>
     flushing s \<and> k \<le> length (queue s) \<and> count_list (queue s) w = c \<and>
     ran s = r0 @ take k (queue s)"


subsection \<open>Concrete schedules\<close>

definition cfg_prod :: config where
  "cfg_prod = \<lparr>production = True, async = True, server = False\<rparr>"

definition cfg_dev :: config where
  "cfg_dev = \<lparr>production = False, async = True, server = False\<rparr>"


text \<open>The state the module starts in, and a state with the watchers \<open>ws\<close> queued.\<close>

definition idle :: "unit sched" where
  "idle = \<lparr>queue = [], has = Map.empty, circular = Map.empty, waiting = False,
           flushing = False, index = 0, env = (), ran = [], warned = [], ticks = 0\<rparr>"

definition pending :: "wid list \<Rightarrow> unit sched" where
  "pending ws = idle\<lparr>queue := ws, has := (\<lambda>x. if x \<in> set ws then Some True else None),
                     waiting := True, ticks := 1\<rparr>"

text \<open>A flush of the watchers 1, 2, 4 with the cursor on 2, after 1 has run.\<close>

definition midflush :: "unit sched" where
  "midflush = (pending [1, 2, 4])\<lparr>flushing := True, index := 1, ran := [1],
                 has := (\<lambda>x. if x = 2 \<or> x = 4 then Some True else None)\<rparr>"


definition requeue_beh :: "unit behaviour" where
  "requeue_beh = \<lparr>before_hook = (\<lambda>w. None), run_fn = (\<lambda>w e. (e, if w = 2 then [1] else []))\<rparr>"

definition requeue3_beh :: "unit behaviour" where
  "requeue3_beh = \<lparr>before_hook = (\<lambda>w. None), run_fn = (\<lambda>w e. (e, if w = 2 then [3] else []))\<rparr>"




section \<open>Values\<close>

text \<open>
  JavaScript values as far as the core distinguishes them: the primitives, with \<open>NaN\<close> apart
  from the other numbers, and references to heap objects (plain objects, arrays and every other
  non-primitive value).
\<close>

datatype val = Undefined | Null | Bool bool | Num int | NaN | Str string | Ref nat

text \<open>The operator \<open>===\<close>: identity on references, equality on primitives, and \<open>NaN !== NaN\<close>.\<close>

definition strict_eq :: "val \<Rightarrow> val \<Rightarrow> bool" where
  "strict_eq a b \<longleftrightarrow> a = b \<and> a \<noteq> NaN"

text \<open>
  Modelled from the spec: \<open>isObject\<close> (shared/util.js) is not under src/. The spec
  separates primitive values from non-primitive ones (objects and arrays); \<open>isObject\<close> is true
  of exactly the non-primitive values.
\<close>

definition isObject :: "val \<Rightarrow> bool" where
  "isObject v = (case v of Ref r \<Rightarrow> True | _ \<Rightarrow> False)"

section \<open>Watcher (src/core/observer/watcher.js)\<close>

text \<open>
  The fields of a \<open>Watcher\<close> that the evaluation reads or writes. A \<open>Dep\<close> is identified by
  its \<open>id\<close>, so \<open>deps\<close> and \<open>newDeps\<close> are lists of ids and \<open>depIds\<close>, \<open>newDepIds\<close> the
  sets of the same ids.
\<close>

record watcher =
  id_w :: nat
  deep :: bool
  user :: bool
  lazy :: bool
  sync :: bool
  dirty :: bool
  active :: bool
  deps :: "nat list"
  newDeps :: "nat list"
  depIds :: "nat set"
  newDepIds :: "nat set"
  value_w :: val

text \<open>
  What the watcher shares with the rest of the system: the subscriber list \<open>subs\<close> of every
  \<open>Dep\<close> (watcher ids), the stack of evaluating watchers whose top is \<open>Dep.target\<close>, the
  errors handed to \<open>handleError\<close> (with what was being run) and the calls of reaction
  callbacks (watcher, new value, old value).
\<close>

record world =
  subs :: "nat \<Rightarrow> nat list"
  targetStack :: "nat list"
  errors :: "(val \<times> string) list"
  calls :: "(nat \<times> val \<times> val) list"


definition popTarget :: "world \<Rightarrow> world" where
  "popTarget wld = wld\<lparr>targetStack := tl (targetStack wld)\<rparr>"












text \<open>
  The fields the constructor gives a watcher with the id \<open>i\<close> and the options \<open>deep\<close>,
  \<open>user\<close>, \<open>lazy\<close>, \<open>sync\<close>, before it calls \<open>get\<close> for the first time (which it does at
  once unless the watcher is lazy).
\<close>

definition new_Watcher :: "nat \<Rightarrow> bool \<Rightarrow> bool \<Rightarrow> bool \<Rightarrow> bool \<Rightarrow> watcher" where
  "new_Watcher i dp us lz sy =
     \<lparr>id_w = i, deep = dp, user = us, lazy = lz, sync = sy, dirty = lz, active = True,
      deps = [], newDeps = [], depIds = {}, newDepIds = {}, value_w = Undefined\<rparr>"

subsection \<open>Auxiliary notions for the watcher proofs\<close>


text \<open>
  The state in which a watcher is between evaluations: the new buffers are empty, \<open>depIds\<close>
  are the ids of \<open>deps\<close>, no Dep is listed twice, and the watcher is subscribed exactly once
  to the Deps in \<open>deps\<close> and to no other.
\<close>

definition consistent :: "watcher \<Rightarrow> world \<Rightarrow> bool" where
  "consistent w wld \<longleftrightarrow>
     newDeps w = [] \<and> newDepIds w = {} \<and> distinct (deps w) \<and> depIds w = set (deps w) \<and>
     (\<forall>d. count_list (subs wld d) (id_w w) = (if d \<in> set (deps w) then 1 else 0))"



subsection \<open>Concrete watchers\<close>







section \<open>Observer (src/core/observer/index.js)\<close>

text \<open>
  Property keys. \<open>Index n\<close> is the integer key \<open>n\<close> (the number \<open>n\<close>, or the string that is
  its decimal numeral); \<open>Name s\<close> is any other string key. \<open>canon\<close> takes a key to this form:
  a string of digits without a leading zero is the integer key that it denotes.
\<close>

datatype key = Index nat | Name string

definition digit :: "char \<Rightarrow> nat option" where
  "digit c = map_of (zip ''0123456789'' [0, 1, 2, 3, 4, 5, 6, 7, 8, 9]) c"

fun digits :: "string \<Rightarrow> nat \<Rightarrow> nat option" where
  "digits [] n = Some n"
| "digits (c # cs) n = (case digit c of Some d \<Rightarrow> digits cs (10 * n + d) | None \<Rightarrow> None)"

definition canon :: "key \<Rightarrow> key" where
  "canon k =
     (case k of
        Index n \<Rightarrow> Index n
      | Name s \<Rightarrow>
          if s \<noteq> [] \<and> (s = ''0'' \<or> hd s \<noteq> CHR ''0'')
          then (case digits s 0 of Some n \<Rightarrow> Index n | None \<Rightarrow> Name s)
          else Name s)"

text \<open>
  The order of own property keys (\<open>Object.keys\<close>, \<open>for\<close>-\<open>in\<close>): the array indices, which are
  the integer keys below \<open>2\<^sup>3\<^sup>2 - 1\<close>, in ascending order, and then the other keys in the
  order of their creation. \<open>precedes k k'\<close> says that a new key \<open>k\<close> comes before the existing
  key \<open>k'\<close>; \<open>ordered\<close> is the order that results.
\<close>

definition precedes :: "key \<Rightarrow> key \<Rightarrow> bool" where
  "precedes k k' =
     (case k of
        Index n \<Rightarrow> n < 4294967295 \<and> (case k' of Index m \<Rightarrow> n < m | Name s \<Rightarrow> True)
      | Name s \<Rightarrow> False)"

definition ordered :: "key list \<Rightarrow> bool" where
  "ordered ks = sorted_wrt (\<lambda>a b. \<not> precedes b a) ks"

text \<open>
  What \<open>observe\<close> asks of an object: \<open>Array.isArray\<close>, \<open>isPlainObject\<close>, \<open>instanceof VNode\<close>,
  or none of them.
\<close>

datatype kind = PlainObject | Array | VNode | OtherObject

text \<open>
  An own property. \<open>s_val\<close> is the value of a data property and, once \<open>defineReactive\<close> has
  converted the property (\<open>s_reactive\<close>), the variable \<open>val\<close> of its closure; \<open>s_dep\<close>,
  \<open>s_childOb\<close>, \<open>s_shallow\<close> and \<open>s_customSetter\<close> are the \<open>dep\<close>, \<open>childOb\<close>, \<open>shallow\<close>
  and \<open>customSetter\<close> of that closure (a \<open>childOb\<close> that is \<open>false\<close> or \<open>undefined\<close> is
  \<open>None\<close>). A property that was an accessor before the conversion keeps its own getter and
  setter: \<open>s_getter\<close> says that it has a getter, which returns \<open>s_state\<close>, and \<open>s_setter\<close>
  is its setter, if any, as a function of the value assigned and \<open>s_state\<close>.
\<close>

record slot =
  s_val :: val
  s_getter :: bool
  s_setter :: "(val \<Rightarrow> val \<Rightarrow> val) option"
  s_state :: val
  s_configurable :: bool
  s_reactive :: bool
  s_dep :: nat
  s_childOb :: "nat option"
  s_shallow :: bool
  s_customSetter :: bool

text \<open>
  A heap object: its \<open>kind\<close>, \<open>Object.isExtensible\<close>, whether \<open>_isVue\<close> reads as true, the
  Observer in its own property \<open>__ob__\<close>
  (\<open>hasOwn(value, '__ob__') && value.__ob__ instanceof Observer\<close>), its own properties other
  than \<open>__ob__\<close>, under canonical keys and in the order of \<open>Object.keys\<close>, the elements of an
  array, and the keys it inherits from its prototypes other than \<open>Object.prototype\<close>
  (inherited properties are taken to be writable data properties). \<open>ob_other\<close> is the value of
  an own property \<open>__ob__\<close> that does not hold an Observer, as an assignment to that key leaves
  it; it counts when \<open>ob\<close> is \<open>None\<close>.
\<close>

record obj =
  kind :: kind
  extensible :: bool
  isVue :: bool
  ob :: "nat option"
  ob_other :: "val option"
  props :: "(key \<times> slot) list"
  items :: "val list"
  inherited :: "key list"

text \<open>An \<open>Observer\<close>: \<open>value\<close> (a reference), \<open>dep\<close> (the id of its Dep) and \<open>vmCount\<close>.\<close>

record observer =
  ob_value :: nat
  ob_dep :: nat
  vmCount :: nat

text \<open>
  The heap: objects and Observers by reference, the next free Observer reference, the counter
  \<open>uid\<close> of dep.js, the flag \<open>shouldObserve\<close>, and for observation the Deps on which
  \<open>notify()\<close> was called, in order, and the numbers of \<open>warn\<close> and \<open>customSetter\<close> calls.
\<close>

record heap =
  objs :: "nat \<Rightarrow> obj"
  observers :: "nat \<Rightarrow> observer"
  next_ob :: nat
  uid_dep :: nat
  shouldObserve :: bool
  notified :: "nat list"
  warnings :: nat
  custom_calls :: nat

text \<open>
  \<open>observe\<close>, the \<open>Observer\<close> constructor, \<open>walk\<close>, \<open>observeArray\<close> and \<open>defineReactive\<close>
  call each other through the object graph. Each function below takes the \<open>observe\<close> it
  calls as its first argument (the value, \<open>asRootData\<close>; no result when it does not return), and
  \<open>observe\<close> itself is defined last, by the depth of calls it is allowed.
\<close>

type_synonym observe_fn = "heap \<Rightarrow> val \<Rightarrow> bool \<Rightarrow> (heap \<times> nat option) option"

text \<open>The property names of \<open>Object.prototype\<close> (ECMAScript, with Annex B).\<close>

definition Object_prototype_keys :: "key list" where
  "Object_prototype_keys = map Name
     [''constructor'', ''hasOwnProperty'', ''isPrototypeOf'', ''propertyIsEnumerable'',
      ''toLocaleString'', ''toString'', ''valueOf'', ''__proto__'', ''__defineGetter__'',
      ''__defineSetter__'', ''__lookupGetter__'', ''__lookupSetter__'']"

text \<open>A plain data property, as an assignment to a missing key creates it.\<close>

definition data_slot :: "val \<Rightarrow> slot" where
  "data_slot v = \<lparr>s_val = v, s_getter = False, s_setter = None, s_state = Undefined,
                  s_configurable = True, s_reactive = False, s_dep = 0, s_childOb = None,
                  s_shallow = False, s_customSetter = False\<rparr>"

text \<open>
  Modelled from the spec: the class \<open>Dep\<close> (observer/dep.js) is not under src/. A Subject has
  a unique id; \<open>new Dep()\<close> takes the next one. \<open>notify()\<close> invokes the subscribers; here the
  call is recorded.
\<close>

definition new_Dep :: "heap \<Rightarrow> nat \<times> heap" where
  "new_Dep h = (uid_dep h, h\<lparr>uid_dep := Suc (uid_dep h)\<rparr>)"

definition notify :: "nat \<Rightarrow> heap \<Rightarrow> heap" where
  "notify d h = h\<lparr>notified := notified h @ [d]\<rparr>"

text \<open>\<open>warn\<close> (util/debug.js, not under src/) only reports; the call is counted.\<close>

definition warn :: "heap \<Rightarrow> heap" where
  "warn h = h\<lparr>warnings := Suc (warnings h)\<rparr>"

definition upd_obj :: "nat \<Rightarrow> (obj \<Rightarrow> obj) \<Rightarrow> heap \<Rightarrow> heap" where
  "upd_obj r f h = h\<lparr>objs := (objs h)(r := f (objs h r))\<rparr>"

text \<open>
  A new own property on the property list, at the place that the order of own keys gives
  it; and \<open>Object.defineProperty\<close>: replace in place, or add as a new property.
\<close>

fun add_own :: "key \<Rightarrow> slot \<Rightarrow> (key \<times> slot) list \<Rightarrow> (key \<times> slot) list" where
  "add_own k p [] = [(k, p)]"
| "add_own k p ((k', p') # ps) =
     (if precedes k k' then (k, p) # (k', p') # ps else (k', p') # add_own k p ps)"

definition put_slot :: "key \<Rightarrow> slot \<Rightarrow> (key \<times> slot) list \<Rightarrow> (key \<times> slot) list" where
  "put_slot k p ps =
     (if k \<in> set (map fst ps)
      then map (\<lambda>(k', p'). if k' = k then (k, p) else (k', p')) ps
      else add_own k p ps)"

definition map_slot :: "nat \<Rightarrow> key \<Rightarrow> (slot \<Rightarrow> slot) \<Rightarrow> heap \<Rightarrow> heap" where
  "map_slot r k f h =
     upd_obj r (\<lambda>b. b\<lparr>props := map (\<lambda>(k', p). if k' = k then (k', f p) else (k', p)) (props b)\<rparr>) h"

text \<open>
  The read \<open>obj[key]\<close>: through the getter of an accessor property (for a reactive property:
  \<open>getter ? getter.call(obj) : val\<close>), \<open>undefined\<close> for an accessor without getter and for a
  missing key.
\<close>

definition read_prop :: "obj \<Rightarrow> key \<Rightarrow> val" where
  "read_prop b k =
     (case map_of (props b) k of
        Some p \<Rightarrow> if s_getter p then s_state p
                  else if s_setter p \<noteq> None \<and> \<not> s_reactive p then Undefined
                  else s_val p
      | None \<Rightarrow>
          (case k of
             Index n \<Rightarrow> if kind b = Array \<and> n < length (items b) then items b ! n else Undefined
           | Name s \<Rightarrow> Undefined))"

text \<open>
  \<open>defineReactive(obj, key, val, customSetter, shallow)\<close>. The argument \<open>varg\<close> is \<open>None\<close>
  for a call with two arguments (\<open>arguments.length === 2\<close>). The model is of the first
  conversion of a property; it does not nest the accessors of a second one.
\<close>

definition defineReactive ::
  "observe_fn \<Rightarrow> nat \<Rightarrow> key \<Rightarrow> val option \<Rightarrow> bool \<Rightarrow> bool \<Rightarrow> heap \<Rightarrow> heap option" where
  "defineReactive obs r k varg customSetter shallow h =
     (let (dep, h1) = new_Dep h;
          property = map_of (props (objs h1 r)) k
      in if (case property of Some p \<Rightarrow> \<not> s_configurable p | None \<Rightarrow> False) then Some h1
         else
           let getter = (case property of Some p \<Rightarrow> s_getter p | None \<Rightarrow> False);
               setter = (case property of Some p \<Rightarrow> s_setter p | None \<Rightarrow> None);
               v = (case varg of
                      Some a \<Rightarrow> a
                    | None \<Rightarrow> if \<not> getter \<or> setter \<noteq> None then read_prop (objs h1 r) k
                              else Undefined)
           in Option.bind (if shallow then Some (h1, None) else obs h1 v False)
                (\<lambda>(h2, childOb).
                   Some (upd_obj r (\<lambda>b. b\<lparr>props := put_slot k
                           ((case property of Some p \<Rightarrow> p | None \<Rightarrow> data_slot Undefined)
                              \<lparr>s_val := v, s_configurable := True, s_reactive := True,
                               s_dep := dep, s_childOb := childOb, s_shallow := shallow,
                               s_customSetter := customSetter\<rparr>)
                           (props b)\<rparr>) h2)))"

text \<open>\<open>Observer.walk\<close> over the keys and \<open>Observer.observeArray\<close> over the items.\<close>

fun walk :: "observe_fn \<Rightarrow> nat \<Rightarrow> key list \<Rightarrow> heap \<Rightarrow> heap option" where
  "walk obs r [] h = Some h"
| "walk obs r (k # ks) h = Option.bind (defineReactive obs r k None False False h) (walk obs r ks)"

fun observeArray :: "observe_fn \<Rightarrow> val list \<Rightarrow> heap \<Rightarrow> heap option" where
  "observeArray obs [] h = Some h"
| "observeArray obs (v # vs) h = Option.bind (obs h v False) (\<lambda>(h', _). observeArray obs vs h')"

text \<open>
  The constructor \<open>new Observer(value)\<close>: a new Dep, \<open>vmCount = 0\<close>,
  \<open>def(value, '__ob__', this)\<close>, and then the items of an array or the keys of an object. The
  interception of the array methods (\<open>protoAugment\<close>, \<open>copyAugment\<close>) is in force for an
  array that carries an Observer.
\<close>

definition new_Observer :: "observe_fn \<Rightarrow> nat \<Rightarrow> heap \<Rightarrow> (heap \<times> nat) option" where
  "new_Observer obs r h =
     (let (dep, h1) = new_Dep h;
          oid = next_ob h1;
          h2 = upd_obj r (\<lambda>b. b\<lparr>ob := Some oid\<rparr>)
                 (h1\<lparr>observers := (observers h1)(oid := \<lparr>ob_value = r, ob_dep = dep, vmCount = 0\<rparr>),
                     next_ob := Suc oid\<rparr>)
      in Option.bind
           (if kind (objs h2 r) = Array then observeArray obs (items (objs h2 r)) h2
            else walk obs r (map fst (props (objs h2 r))) h2)
           (\<lambda>h3. Some (h3, oid)))"

text \<open>The body of \<open>observe(value, asRootData)\<close>; the result \<open>None\<close> of a call is \<open>undefined\<close>.\<close>

definition observe_body :: "observe_fn \<Rightarrow> config \<Rightarrow> heap \<Rightarrow> val \<Rightarrow> bool \<Rightarrow> (heap \<times> nat option) option" where
  "observe_body obs cfg h v asRootData =
     (case v of
        Ref r \<Rightarrow>
          if kind (objs h r) = VNode then Some (h, None)
          else
            Option.bind
              (if ob (objs h r) \<noteq> None then Some (h, ob (objs h r))
               else if shouldObserve h \<and> \<not> server cfg \<and>
                       (kind (objs h r) = Array \<or> kind (objs h r) = PlainObject) \<and>
                       extensible (objs h r) \<and> \<not> isVue (objs h r)
               then Option.bind (new_Observer obs r h) (\<lambda>(h', oid). Some (h', Some oid))
               else Some (h, None))
              (\<lambda>(h', res).
                 case res of
                   Some oid \<Rightarrow>
                     if asRootData
                     then Some (h'\<lparr>observers := (observers h')
                                   (oid := (observers h' oid)\<lparr>vmCount := Suc (vmCount (observers h' oid))\<rparr>)\<rparr>,
                                Some oid)
                     else Some (h', Some oid)
                 | None \<Rightarrow> Some (h', None))
      | _ \<Rightarrow> Some (h, None))"

text \<open>
  \<open>observe\<close> with at most \<open>n\<close> nested calls of itself; with none left it does not return.
\<close>

primrec observe :: "nat \<Rightarrow> config \<Rightarrow> observe_fn" where
  "observe 0 cfg = (\<lambda>h v a. None)"
| "observe (Suc n) cfg = observe_body (observe n cfg) cfg"

text \<open>
  \<open>reactiveSetter\<close>, the setter that \<open>defineReactive\<close> installs, on the property \<open>k\<close> of the
  object \<open>r\<close>: \<open>custom_called\<close> is the call of \<open>customSetter\<close>, \<open>store\<close> the assignment
  \<open>setter.call(obj, newVal)\<close> or \<open>val = newVal\<close>.
\<close>

definition custom_called :: "config \<Rightarrow> slot \<Rightarrow> heap \<Rightarrow> heap" where
  "custom_called cfg p h =
     (if \<not> production cfg \<and> s_customSetter p then h\<lparr>custom_calls := Suc (custom_calls h)\<rparr> else h)"

definition store :: "nat \<Rightarrow> key \<Rightarrow> slot \<Rightarrow> val \<Rightarrow> heap \<Rightarrow> heap" where
  "store r k p newVal h =
     (case s_setter p of
        Some f \<Rightarrow> map_slot r k (\<lambda>q. q\<lparr>s_state := f newVal (s_state q)\<rparr>) h
      | None \<Rightarrow> map_slot r k (\<lambda>q. q\<lparr>s_val := newVal\<rparr>) h)"

definition reactiveSetter :: "observe_fn \<Rightarrow> config \<Rightarrow> nat \<Rightarrow> key \<Rightarrow> val \<Rightarrow> heap \<Rightarrow> heap option" where
  "reactiveSetter obs cfg r k newVal h =
     (case map_of (props (objs h r)) k of
        None \<Rightarrow> Some h
      | Some p \<Rightarrow>
          let value = (if s_getter p then s_state p else s_val p)
          in if strict_eq newVal value \<or> (\<not> strict_eq newVal newVal \<and> \<not> strict_eq value value)
             then Some h
             else
               let h1 = custom_called cfg p h
               in if s_getter p \<and> s_setter p = None then Some h1
                  else
                    let h2 = store r k p newVal h1
                    in Option.bind (if s_shallow p then Some (h2, None) else obs h2 newVal False)
                         (\<lambda>(h3, childOb).
                            Some (notify (s_dep p)
                                    (map_slot r k (\<lambda>q. q\<lparr>s_childOb := childOb\<rparr>) h3))))"

text \<open>
  The outcome of a statement: it completes, it throws (a TypeError, in this module), or it does
  what this model has no account of.
\<close>

datatype 'a completion = Normal 'a | Throw | Unmodelled

text \<open>The conversion of a value to a boolean, as in \<open>if (target._isVue)\<close> and \<open>!ob\<close>.\<close>

definition truthy :: "val \<Rightarrow> bool" where
  "truthy v =
     (case v of
        Undefined \<Rightarrow> False | Null \<Rightarrow> False | Bool b \<Rightarrow> b | Num n \<Rightarrow> n \<noteq> 0 | NaN \<Rightarrow> False
      | Str s \<Rightarrow> s \<noteq> [] | Ref r \<Rightarrow> True)"

text \<open>After an assignment to the key \<open>_isVue\<close> the flag of the object follows the property.\<close>

definition sync_isVue :: "nat \<Rightarrow> key \<Rightarrow> heap \<Rightarrow> heap" where
  "sync_isVue r k h =
     (if k = Name ''_isVue'' \<and> k \<in> set (map fst (props (objs h r)))
      then upd_obj r (\<lambda>b. b\<lparr>isVue := truthy (read_prop b k)\<rparr>) h
      else h)"

text \<open>
  The assignment \<open>target[key] = val\<close> as \<open>set\<close> performs it (never with an integer key on an
  array), for a canonical key. On an own property: through \<open>reactiveSetter\<close> on a reactive
  property, through the setter of another accessor property, into a data property (data
  properties are taken to be writable). The own property \<open>__ob__\<close> is a writable data property
  (index.js, \<open>def(value, '__ob__', this)\<close>): the assignment replaces the Observer in it by the
  value. On a key that is not an own property: \<open>__proto__\<close> is an accessor of
  \<open>Object.prototype\<close>, whose setter ignores a value that is neither an object nor \<open>null\<close> and
  otherwise replaces the prototype, which this model has no account of (nor has it of the
  assignment to the \<open>length\<close> of an array, or to \<open>_isVue\<close> where the flag is set and the
  property is not listed); any other key becomes a new own data property, at its place in
  the order of the keys. The code is module code, hence strict: the assignment to an accessor
  property without setter and the assignment of a new key to an object that is not extensible
  throw a TypeError.
\<close>

definition assign :: "observe_fn \<Rightarrow> config \<Rightarrow> nat \<Rightarrow> key \<Rightarrow> val \<Rightarrow> heap \<Rightarrow> heap completion option" where
  "assign obs cfg r k v h =
     (let b = objs h r
      in case map_of (props b) k of
           Some p \<Rightarrow>
             if s_reactive p
             then map_option (\<lambda>h'. Normal (sync_isVue r k h')) (reactiveSetter obs cfg r k v h)
             else if s_getter p \<or> s_setter p \<noteq> None then
               (case s_setter p of
                  Some f \<Rightarrow>
                    Some (Normal (sync_isVue r k (map_slot r k (\<lambda>q. q\<lparr>s_state := f v (s_state q)\<rparr>) h)))
                | None \<Rightarrow> Some Throw)
             else Some (Normal (sync_isVue r k (map_slot r k (\<lambda>q. q\<lparr>s_val := v\<rparr>) h)))
         | None \<Rightarrow>
             if k = Name ''__ob__'' then
               (if ob b \<noteq> None \<or> ob_other b \<noteq> None \<or> extensible b
                then Some (Normal (upd_obj r (\<lambda>b. b\<lparr>ob := None, ob_other := Some v\<rparr>) h))
                else Some Throw)
             else if k = Name ''__proto__'' then
               (case v of Ref x \<Rightarrow> Some Unmodelled | Null \<Rightarrow> Some Unmodelled | _ \<Rightarrow> Some (Normal h))
             else if (kind b = Array \<and> (case k of Index n \<Rightarrow> True | Name s \<Rightarrow> s = ''length'')) \<or>
                     (k = Name ''_isVue'' \<and> isVue b)
             then Some Unmodelled
             else if extensible b
             then Some (Normal (sync_isVue r k
                                  (upd_obj r (\<lambda>b. b\<lparr>props := add_own k (data_slot v) (props b)\<rparr>) h)))
             else Some Throw)"

text \<open>
  The operator \<open>key in target\<close>, for a canonical key: an own property (\<open>__ob__\<close> and, on an
  array, the elements and \<open>length\<close> among them) or an inherited one.
\<close>

definition key_in :: "obj \<Rightarrow> key \<Rightarrow> bool" where
  "key_in b k \<longleftrightarrow>
     k \<in> set (map fst (props b)) \<or>
     (k = Name ''__ob__'' \<and> (ob b \<noteq> None \<or> ob_other b \<noteq> None)) \<or>
     (k = Name ''_isVue'' \<and> isVue b) \<or>
     (kind b = Array \<and> (case k of Index n \<Rightarrow> n < length (items b) | Name s \<Rightarrow> s = ''length'')) \<or>
     k \<in> set (inherited b) \<or> k \<in> set Object_prototype_keys"

text \<open>
  \<open>target.length = Math.max(target.length, key); target.splice(key, 1, val)\<close> on the items
  of an array.
\<close>

definition splice_at :: "nat \<Rightarrow> val \<Rightarrow> val list \<Rightarrow> val list" where
  "splice_at n v xs =
     (let ys = xs @ replicate (n - length xs) Undefined in take n ys @ v # drop (Suc n) ys)"

text \<open>
  \<open>set(target, key, val)\<close>; the result is \<open>Normal val\<close> for \<open>return val\<close>. On a target that
  is \<open>undefined\<close>, \<open>null\<close> or primitive (all that is not an object, in this model) it warns
  outside production and then throws in \<open>key in target\<close>.

  Modelled from the spec: \<open>isValidArrayIndex\<close> (shared/util.js) is not under src/. It accepts
  the non-negative integers, so every integer key; which other strings it accepts is the
  parameter \<open>valid\<close>, and what \<open>Math.max\<close> and \<open>splice\<close> make of such a string is not
  modelled, nor is an index from \<open>2\<^sup>3\<^sup>2 - 1\<close> on, which no array has. On an array that is not
  extensible, \<open>splice\<close> throws when it has to add the index, after the \<open>length\<close> was set. The
  \<open>splice\<close> of an array that carries an Observer is the intercepted one of array.js: it
  observes the inserted value and notifies the Dep of the Observer; where \<open>__ob__\<close> was
  overwritten since, it is not modelled.

  The read \<open>target.__ob__\<close> finds the own property, or else an inherited one, whose value is
  not modelled; so is not the call \<open>defineReactive(ob.value, key, val)\<close> for an \<open>ob\<close> that is
  no Observer.
\<close>

definition set_prop ::
  "observe_fn \<Rightarrow> config \<Rightarrow> (string \<Rightarrow> bool) \<Rightarrow> val \<Rightarrow> key \<Rightarrow> val \<Rightarrow> heap
     \<Rightarrow> (heap \<times> val completion) option" where
  "set_prop obs cfg valid target key v h =
     (let k = canon key;
          h0 = (if \<not> production cfg \<and> \<not> isObject target then warn h else h);
          assigned = (\<lambda>r. Option.bind (assign obs cfg r k v h0)
                             (\<lambda>res. case res of
                                      Normal h1 \<Rightarrow> Some (h1, Normal v)
                                    | Throw \<Rightarrow> Some (h0, Throw)
                                    | Unmodelled \<Rightarrow> Some (h0, Unmodelled)));
          refused = Some (if \<not> production cfg then warn h0 else h0, Normal v)
      in case target of
           Ref r \<Rightarrow>
             let b = objs h0 r
             in if kind b = Array \<and> (case k of Index n \<Rightarrow> True | Name s \<Rightarrow> valid s) then
                  (case k of
                     Name s \<Rightarrow> Some (h0, Unmodelled)
                   | Index n \<Rightarrow>
                       let xs = items b;
                           ys = xs @ replicate (n - length xs) Undefined
                       in if \<not> n < 4294967295 then Some (h0, Unmodelled)
                          else if \<not> extensible b \<and> length xs \<le> n
                          then Some (upd_obj r (\<lambda>b. b\<lparr>items := ys\<rparr>) h0, Throw)
                          else
                            let h1 = upd_obj r (\<lambda>b. b\<lparr>items := splice_at n v xs\<rparr>) h0
                            in (case ob b of
                                  Some oid \<Rightarrow>
                                    Option.bind (observeArray obs [v] h1)
                                      (\<lambda>h2. Some (notify (ob_dep (observers h2 oid)) h2, Normal v))
                                | None \<Rightarrow>
                                    if ob_other b \<noteq> None then Some (h0, Unmodelled)
                                    else Some (h1, Normal v)))
                else if key_in b k \<and> k \<notin> set Object_prototype_keys then assigned r
                else
                  (case ob b of
                     Some oid \<Rightarrow>
                       if isVue b \<or> vmCount (observers h0 oid) \<noteq> 0 then refused
                       else
                         Option.bind
                           (defineReactive obs (ob_value (observers h0 oid)) k (Some v) False False h0)
                           (\<lambda>h1. Some (notify (ob_dep (observers h1 oid)) (sync_isVue r k h1), Normal v))
                   | None \<Rightarrow>
                       (case ob_other b of
                          Some x \<Rightarrow>
                            if isVue b then refused
                            else if \<not> truthy x then assigned r
                            else Some (h0, Unmodelled)
                        | None \<Rightarrow>
                            if Name ''__ob__'' \<in> set (inherited b) then Some (h0, Unmodelled)
                            else if isVue b then refused
                            else assigned r))
         | _ \<Rightarrow> Some (h0, Throw))"

subsection \<open>Auxiliary notions for the observer proofs\<close>

text \<open>
  From \<open>h\<close> to \<open>h'\<close> no object changes its kind and no object that carries an Observer gets
  another one or loses it.
\<close>

definition keeps :: "heap \<Rightarrow> heap \<Rightarrow> bool" where
  "keeps h h' \<longleftrightarrow>
     (\<forall>x. kind (objs h' x) = kind (objs h x) \<and>
          (\<forall>oid. ob (objs h x) = Some oid \<longrightarrow> ob (objs h' x) = Some oid))"

text \<open>The conditions under which \<open>observe\<close> creates an Observer for an object without one.\<close>

definition observable :: "config \<Rightarrow> heap \<Rightarrow> nat \<Rightarrow> bool" where
  "observable cfg h r \<longleftrightarrow>
     shouldObserve h \<and> \<not> server cfg \<and>
     (kind (objs h r) = Array \<or> kind (objs h r) = PlainObject) \<and>
     extensible (objs h r) \<and> \<not> isVue (objs h r)"


text \<open>
  From \<open>h\<close> to \<open>h'\<close> no Dep is notified and no \<open>customSetter\<close> called, every property is
  still there with its own getter and setter and the state behind them, and a property
  without them holds the value it held. This is what \<open>observe\<close> retains.
\<close>

definition retains :: "heap \<Rightarrow> heap \<Rightarrow> bool" where
  "retains h h' \<longleftrightarrow>
     notified h' = notified h \<and> custom_calls h' = custom_calls h \<and>
     (\<forall>x k p. map_of (props (objs h x)) k = Some p \<longrightarrow>
        (\<exists>q. map_of (props (objs h' x)) k = Some q \<and> s_getter q = s_getter p \<and>
             s_setter q = s_setter p \<and> s_state q = s_state p \<and>
             (\<not> s_getter p \<and> s_setter p = None \<longrightarrow> s_val q = s_val p)))"


text \<open>
  The value of an own data property that is not reactive, if the object has one under the key.
\<close>

definition own_data :: "obj \<Rightarrow> key \<Rightarrow> val option" where
  "own_data b k =
     (case map_of (props b) k of
        Some p \<Rightarrow> if \<not> s_reactive p \<and> \<not> s_getter p \<and> s_setter p = None then Some (s_val p) else None
      | None \<Rightarrow> if k = Name ''__ob__'' \<and> ob b = None then ob_other b else None)"

subsection \<open>Concrete heaps\<close>

text \<open>
  Objects 1 and 2 refer to each other, object 3 is not extensible; in \<open>heap_wrapped\<close> object 2
  carries the Observer 5; in \<open>heap_acc\<close> object 4 has a reactive accessor property \<open>a\<close> with a
  getter and no setter, and a reactive data property \<open>n\<close> holding \<open>NaN\<close>.
\<close>

definition blank :: obj where
  "blank = \<lparr>kind = PlainObject, extensible = True, isVue = False, ob = None, ob_other = None,
            props = [], items = [], inherited = []\<rparr>"

definition heap0 :: heap where
  "heap0 = \<lparr>objs = (\<lambda>r. if r = 1 then blank\<lparr>props := [(Name ''a'', data_slot (Num 1)),
                                                         (Name ''b'', data_slot (Ref 2))]\<rparr>
                         else if r = 2 then blank\<lparr>props := [(Name ''c'', data_slot (Ref 1))]\<rparr>
                         else if r = 3 then blank\<lparr>extensible := False\<rparr>
                         else blank),
             observers = (\<lambda>x. \<lparr>ob_value = 0, ob_dep = 0, vmCount = 0\<rparr>),
             next_ob = 0, uid_dep = 0, shouldObserve = True, notified = [], warnings = 0,
             custom_calls = 0\<rparr>"

definition heap_wrapped :: heap where
  "heap_wrapped = heap0\<lparr>objs := (objs heap0)(2 := blank\<lparr>ob := Some 5\<rparr>), next_ob := 6\<rparr>"


text \<open>
  An \<open>isValidArrayIndex\<close> that accepts no string besides the integer keys; \<open>set\<close> asks it on
  arrays only.
\<close>

definition integers_only :: "string \<Rightarrow> bool" where
  "integers_only s = False"

section \<open>Properties\<close>

lemma exec_qw_Nil: "exec cfg beh (QueueWatchers []) s = Some s"
  by (subst exec.simps) simp

lemma exec_qw_Cons: "exec cfg beh (QueueWatchers (w # rest)) s =
  (if has s w = None then
                 let s2 = enqueue w s
                 in if \<not> waiting s2 then
                      let s3 = s2\<lparr>waiting := True\<rparr>
                      in if \<not> production cfg \<and> \<not> async cfg then
                           Option.bind (exec cfg beh FlushSchedulerQueue s3)
                             (exec cfg beh (QueueWatchers rest))
                         else exec cfg beh (QueueWatchers rest) (s3\<lparr>ticks := Suc (ticks s3)\<rparr>)
                    else exec cfg beh (QueueWatchers rest) s2
               else exec cfg beh (QueueWatchers rest) s)"
  by (subst exec.simps) simp


lemma exec_drain_done: "\<not> index s < length (queue s) \<Longrightarrow> exec cfg beh DrainLoop s = Some s"
  by (subst exec.simps) simp

lemma exec_drain_step: "index s < length (queue s) \<Longrightarrow> exec cfg beh DrainLoop s =
            (let w = queue s ! index s
            in Option.bind
                 (case before_hook beh w of
                    None \<Rightarrow> Some s
                  | Some b \<Rightarrow>
                      exec cfg beh (QueueWatchers (snd (b (env s)))) (s\<lparr>env := fst (b (env s))\<rparr>))
                 (\<lambda>s1.
                    let s2 = s1\<lparr>has := (has s1)(w := None)\<rparr>;
                        r = run_fn beh w (env s2)
                    in Option.bind
                         (exec cfg beh (QueueWatchers (snd r)) (s2\<lparr>env := fst r, ran := ran s2 @ [w]\<rparr>))
                         (\<lambda>s3.
                            if \<not> production cfg \<and> has s3 w \<noteq> None then
                              let c = cnt s3 w + 1;
                                  s4 = s3\<lparr>circular := (circular s3)(w \<mapsto> c)\<rparr>
                              in if c > MAX_UPDATE_COUNT then
                                   Some (s4\<lparr>warned := warned s4 @ [w]\<rparr>)
                                 else exec cfg beh DrainLoop (s4\<lparr>index := Suc (index s4)\<rparr>)
                            else exec cfg beh DrainLoop (s3\<lparr>index := Suc (index s3)\<rparr>))))"
  by (subst exec.simps) simp


lemma drain_quiet_step:
  assumes "index s < length (queue s)"
    and "before_hook beh (queue s ! index s) = None"
    and "snd (run_fn beh (queue s ! index s) (env s)) = []"
  shows "exec cfg beh DrainLoop s =
         exec cfg beh DrainLoop
           (s\<lparr>has := (has s)(queue s ! index s := None),
              env := fst (run_fn beh (queue s ! index s) (env s)),
              ran := ran s @ [queue s ! index s],
              index := Suc (index s)\<rparr>)"
  using assms by (simp add: exec_drain_step exec_qw_Nil Let_def)

lemma drain_quiet:
  assumes "\<forall>x \<in> set (drop (index s) (queue s)).
             before_hook beh x = None \<and> (\<forall>e. snd (run_fn beh x e) = [])"
  shows "\<exists>s'. exec cfg beh DrainLoop s = Some s' \<and>
              ran s' = ran s @ drop (index s) (queue s) \<and>
              queue s' = queue s \<and> warned s' = warned s \<and> ticks s' = ticks s \<and>
              env s' = foldl (\<lambda>e x. fst (run_fn beh x e)) (env s) (drop (index s) (queue s))"
  using assms
proof (induction "length (queue s) - index s" arbitrary: s)
  case 0
  then have "\<not> index s < length (queue s)" by simp
  then show ?case by (simp add: exec_drain_done)
next
  case (Suc n)
  then have lt: "index s < length (queue s)" by simp
  let ?w = "queue s ! index s"
  let ?s = "s\<lparr>has := (has s)(?w := None), env := fst (run_fn beh ?w (env s)),
              ran := ran s @ [?w], index := Suc (index s)\<rparr>"
  have dr: "drop (index s) (queue s) = ?w # drop (Suc (index s)) (queue s)"
    using lt by (simp add: Cons_nth_drop_Suc)
  have q: "before_hook beh ?w = None" "snd (run_fn beh ?w (env s)) = []"
    using Suc.prems dr by auto
  have step: "exec cfg beh DrainLoop s = exec cfg beh DrainLoop ?s"
    using drain_quiet_step[OF lt q] .
  have "n = length (queue ?s) - index ?s" using Suc.hyps(2) by simp
  moreover have "\<forall>x \<in> set (drop (index ?s) (queue ?s)).
             before_hook beh x = None \<and> (\<forall>e. snd (run_fn beh x e) = [])"
    using Suc.prems dr by simp
  ultimately obtain s' where s': "exec cfg beh DrainLoop ?s = Some s'"
      "ran s' = ran ?s @ drop (index ?s) (queue ?s)"
      "queue s' = queue ?s" "warned s' = warned ?s" "ticks s' = ticks ?s"
      "env s' = foldl (\<lambda>e x. fst (run_fn beh x e)) (env ?s) (drop (index ?s) (queue ?s))"
    using Suc.hyps(1)[of ?s] by blast
  show ?case using s' step dr by simp
qed

lemma trim_snoc: "trim w (xs @ [x]) = (if w < x then trim w xs else xs @ [x])"
  by (simp add: trim_def)

lemma trim_Nil: "trim w [] = []"
  by (simp add: trim_def)


lemma scan_trim:
  "length pre = Suc idx \<Longrightarrow> m \<le> length rest \<Longrightarrow>
   scan (pre @ rest) idx w (Suc idx + m) = Suc idx + length (trim w (take m rest))"
proof (induction m)
  case 0
  then show ?case by (simp add: trim_Nil)
next
  case (Suc m)
  then have m: "m < length rest" by simp
  have tk: "take (Suc m) rest = take m rest @ [rest ! m]"
    using m by (simp add: take_Suc_conv_app_nth)
  have nth: "(pre @ rest) ! (Suc idx + m) = rest ! m"
    using Suc.prems(1) by (simp add: nth_append)
  show ?case
    using Suc.IH[OF Suc.prems(1)] m nth by (simp add: tk trim_snoc)
qed

lemma scan_whole:
  assumes "idx < length q"
  shows "scan q idx w (length q) = Suc idx + length (trim w (drop (Suc idx) q))"
proof -
  let ?pre = "take (Suc idx) q" and ?rest = "drop (Suc idx) q"
  have l: "length ?pre = Suc idx" using assms by simp
  have "scan (?pre @ ?rest) idx w (Suc idx + length ?rest) =
        Suc idx + length (trim w (take (length ?rest) ?rest))"
    by (rule scan_trim[OF l]) simp
  moreover have "Suc idx + length ?rest = length q" using assms by simp
  ultimately have "scan (?pre @ ?rest) idx w (length q) =
        Suc idx + length (trim w (take (length ?rest) ?rest))"
    by (simp only:)
  then show ?thesis by (simp only: append_take_drop_id take_all order_refl)
qed

lemma trim_sorted: "sorted xs \<Longrightarrow> trim w xs = takeWhile (\<lambda>x. x \<le> w) xs"
proof (induction xs rule: rev_induct)
  case Nil
  then show ?case by (simp add: trim_Nil)
next
  case (snoc x xs)
  then have s: "sorted xs" and le: "\<forall>y \<in> set xs. y \<le> x"
    by (auto simp: sorted_append)
  show ?case
  proof (cases "w < x")
    case True
    then show ?thesis using snoc.IH[OF s] by (simp add: trim_snoc takeWhile_append)
  next
    case False
    then have "\<forall>y \<in> set (xs @ [x]). y \<le> w" using le by auto
    then have "takeWhile (\<lambda>x. x \<le> w) (xs @ [x]) = xs @ [x]"
      by (metis takeWhile_eq_all_conv)
    then show ?thesis using False by (simp add: trim_snoc)
  qed
qed

lemma enqueue_flushing_queue:
  assumes "flushing s" "index s < length (queue s)"
  shows "queue (enqueue w s) =
         take (Suc (index s)) (queue s) @ trim w (drop (Suc (index s)) (queue s)) @
         w # drop (length (trim w (drop (Suc (index s)) (queue s)))) (drop (Suc (index s)) (queue s))"
proof -
  let ?q = "queue s" and ?i = "index s"
  let ?rest = "drop (Suc ?i) ?q"
  let ?t = "trim w ?rest"
  have j: "scan ?q ?i w (length ?q) = Suc ?i + length ?t"
    using scan_whole[OF assms(2)] .
  have pre: "trim w ?rest = take (length ?t) ?rest"
    unfolding trim_def
    by (metis (no_types, lifting) append_eq_conv_conj rev_append rev_rev_ident takeWhile_dropWhile_id)
  have "take (Suc ?i + length ?t) ?q = take (Suc ?i) ?q @ take (length ?t) ?rest"
    by (rule take_add)
  moreover have "drop (Suc ?i + length ?t) ?q = drop (length ?t) ?rest"
    by (simp add: add.commute)
  ultimately show ?thesis
    using assms(1) j pre by (simp add: enqueue_def splice_def Let_def)
qed

lemma enqueue_flushing_sorted:
  assumes "flushing s" "index s < length (queue s)" "sorted (drop (Suc (index s)) (queue s))"
  shows "queue (enqueue w s) =
         take (Suc (index s)) (queue s) @
         takeWhile (\<lambda>x. x \<le> w) (drop (Suc (index s)) (queue s)) @
         w # dropWhile (\<lambda>x. x \<le> w) (drop (Suc (index s)) (queue s))"
  using enqueue_flushing_queue[OF assms(1,2)] trim_sorted[OF assms(3)]
  by (simp add: dropWhile_eq_drop)

lemma enqueue_fields [simp]:
  "waiting (enqueue w s) = waiting s" "flushing (enqueue w s) = flushing s"
  "index (enqueue w s) = index s" "env (enqueue w s) = env s" "ran (enqueue w s) = ran s"
  "warned (enqueue w s) = warned s" "circular (enqueue w s) = circular s"
  "ticks (enqueue w s) = ticks s" "has (enqueue w s) = (has s)(w \<mapsto> True)"
  by (simp_all add: enqueue_def Let_def)

lemma core_fields [simp]:
  "waiting (queueWatcher_core w s) = waiting s" "flushing (queueWatcher_core w s) = flushing s"
  "index (queueWatcher_core w s) = index s" "env (queueWatcher_core w s) = env s"
  "ran (queueWatcher_core w s) = ran s" "warned (queueWatcher_core w s) = warned s"
  "circular (queueWatcher_core w s) = circular s" "ticks (queueWatcher_core w s) = ticks s"
  by (simp_all add: queueWatcher_core_def)

lemma enqueue_all_fields [simp]:
  "waiting (enqueue_all ws s) = waiting s" "flushing (enqueue_all ws s) = flushing s"
  "index (enqueue_all ws s) = index s" "env (enqueue_all ws s) = env s"
  "ran (enqueue_all ws s) = ran s" "warned (enqueue_all ws s) = warned s"
  "circular (enqueue_all ws s) = circular s" "ticks (enqueue_all ws s) = ticks s"
  by (induction ws arbitrary: s; simp add: enqueue_all_def)+

lemma enqueue_all_Nil [simp]: "enqueue_all [] s = s"
  by (simp add: enqueue_all_def)

lemma enqueue_all_Cons [simp]: "enqueue_all (w # ws) s = enqueue_all ws (queueWatcher_core w s)"
  by (simp add: enqueue_all_def)

lemma exec_qw_waiting:
  "waiting s \<Longrightarrow> exec cfg beh (QueueWatchers ws) s = Some (enqueue_all ws s)"
proof (induction ws arbitrary: s)
  case Nil
  then show ?case by (simp add: exec_qw_Nil)
next
  case (Cons w ws)
  show ?case
  proof (cases "has s w = None")
    case True
    then show ?thesis
      using Cons.prems Cons.IH[of "enqueue w s"]
      by (simp add: exec_qw_Cons queueWatcher_core_def)
  next
    case False
    then show ?thesis
      using Cons.prems Cons.IH[of s]
      by (simp add: exec_qw_Cons queueWatcher_core_def del: not_None_eq)
  qed
qed

lemma drain_step_waiting:
  assumes "waiting s" "index s < length (queue s)" "before_hook beh (queue s ! index s) = None"
  shows "exec cfg beh DrainLoop s =
     (let w = queue s ! index s;
          r = run_fn beh w (env s);
          s3 = enqueue_all (snd r) (s\<lparr>has := (has s)(w := None), env := fst r, ran := ran s @ [w]\<rparr>)
      in if \<not> production cfg \<and> has s3 w \<noteq> None then
           let s4 = s3\<lparr>circular := (circular s3)(w \<mapsto> cnt s3 w + 1)\<rparr>
           in if cnt s3 w + 1 > MAX_UPDATE_COUNT then Some (s4\<lparr>warned := warned s4 @ [w]\<rparr>)
              else exec cfg beh DrainLoop (s4\<lparr>index := Suc (index s4)\<rparr>)
         else exec cfg beh DrainLoop (s3\<lparr>index := Suc (index s3)\<rparr>))"
  using assms by (simp add: exec_drain_step exec_qw_waiting Let_def cnt_def)



lemma waiting_run_phase [simp]: "waiting (run_phase beh s) = waiting s"
  by (simp add: run_phase_def Let_def split: option.splits)

lemma drain_waiting:
  assumes "waiting s" "index s < length (queue s)"
  shows "exec cfg beh DrainLoop s =
     (case after_check cfg (run_phase beh s) (queue s ! index s) of
        (s', True) \<Rightarrow> Some s'
      | (s', False) \<Rightarrow> exec cfg beh DrainLoop s')"
  using assms
  by (cases "before_hook beh (queue s ! index s)")
     (simp_all add: exec_drain_step exec_qw_waiting Let_def cnt_def run_phase_def after_check_def)











lemma flush_inv_env [simp]: "flush_inv P C r0 k (s\<lparr>env := e\<rparr>) = flush_inv P C r0 k s"
  by (simp add: flush_inv_def)








lemma warned_run_phase [simp]: "warned (run_phase beh s) = warned s"
  by (simp add: run_phase_def Let_def split: option.splits)







lemma asc_inv_env [simp]: "asc_inv r0 k (s\<lparr>env := e\<rparr>) = asc_inv r0 k s"
  by (simp add: asc_inv_def)








lemma cnt_inv_env [simp]: "cnt_inv w c r0 k (s\<lparr>env := e\<rparr>) = cnt_inv w c r0 k s"
  by (simp add: cnt_inv_def)






lemma circular_run_phase [simp]: "circular (run_phase beh s) = circular s"
  by (simp add: run_phase_def Let_def split: option.splits)

lemma index_run_phase [simp]: "index (run_phase beh s) = index s"
  by (simp add: run_phase_def Let_def split: option.splits)

lemma ran_run_phase [simp]: "ran (run_phase beh s) = ran s @ [queue s ! index s]"
  by (simp add: run_phase_def Let_def split: option.splits)

lemma cnt_run_phase [simp]: "cnt (run_phase beh s) x = cnt s x"
  by (simp add: cnt_def)






















text \<open>
Claim C2, as stated, fails. Watchers 1 and 2 are queued from the idle scheduler; in the flush,
watcher 2 queues watcher 1, whose id the cursor has passed. Watcher 1 is not deferred to the
next flush: it is spliced in behind the cursor and runs a second time in this flush.
\<close>

theorem passed_node_runs_again_counterexample:
  "map_option ran
     (Option.bind (exec cfg_prod requeue_beh (QueueWatchers [1, 2]) idle)
        (flushSchedulerQueue cfg_prod requeue_beh)) = Some [1, 2, 1]"
  by (simp add: flushSchedulerQueue_def exec.simps idle_def cfg_prod_def requeue_beh_def
        enqueue_def splice_def resetSchedulerState_def)

text \<open>
Claim C2, amended. During a flush (cursor on a queue entry, unprocessed part sorted),
\<open>queueWatcher\<close> on a watcher \<open>w\<close> that is not in \<open>has\<close> puts it in \<open>has\<close> and splices it into the
unprocessed part of the queue, behind every unprocessed id \<open>\<le> w\<close> and before the greater
ones; the processed part and the cursor are unchanged. Second conjunct: when the watcher at the
cursor queues \<open>w\<close> in its run and nothing else is queued, the rest of the flush runs the
unprocessed entries with \<open>w\<close> exactly once at that position. A watcher whose id is below every
unprocessed id (one the cursor has passed) is therefore run next, in this flush.
\<close>

theorem reentrant_enqueue_is_spliced_behind_cursor:
  assumes "flushing s" "waiting s" "index s < length (queue s)" "has s w = None"
    and "sorted (drop (Suc (index s)) (queue s))"
  shows "(\<exists>s1. queueWatcher cfg beh w s = Some s1 \<and>
            queue s1 = take (Suc (index s)) (queue s) @
                       takeWhile (\<lambda>x. x \<le> w) (drop (Suc (index s)) (queue s)) @
                       w # dropWhile (\<lambda>x. x \<le> w) (drop (Suc (index s)) (queue s)) \<and>
            has s1 w = Some True \<and> index s1 = index s \<and> ran s1 = ran s) \<and>
         (queue s ! index s \<noteq> w \<and> before_hook beh (queue s ! index s) = None \<and>
          snd (run_fn beh (queue s ! index s) (env s)) = [w] \<and>
          (\<forall>x \<in> set (drop (Suc (index s)) (queue s)) \<union> {w}.
              before_hook beh x = None \<and> (\<forall>e. snd (run_fn beh x e) = [])) \<longrightarrow>
          (\<exists>s'. exec cfg beh DrainLoop s = Some s' \<and>
             ran s' = ran s @ queue s ! index s #
                      takeWhile (\<lambda>x. x \<le> w) (drop (Suc (index s)) (queue s)) @
                      w # dropWhile (\<lambda>x. x \<le> w) (drop (Suc (index s)) (queue s))))"
proof (intro conjI impI)
  show "\<exists>s1. queueWatcher cfg beh w s = Some s1 \<and>
            queue s1 = take (Suc (index s)) (queue s) @
                       takeWhile (\<lambda>x. x \<le> w) (drop (Suc (index s)) (queue s)) @
                       w # dropWhile (\<lambda>x. x \<le> w) (drop (Suc (index s)) (queue s)) \<and>
            has s1 w = Some True \<and> index s1 = index s \<and> ran s1 = ran s"
    using assms enqueue_flushing_sorted[OF assms(1,3,5), of w]
    by (simp add: queueWatcher_def exec_qw_waiting queueWatcher_core_def)
next
  let ?c = "queue s ! index s" and ?rest = "drop (Suc (index s)) (queue s)"
  assume a: "?c \<noteq> w \<and> before_hook beh ?c = None \<and> snd (run_fn beh ?c (env s)) = [w] \<and>
          (\<forall>x \<in> set ?rest \<union> {w}. before_hook beh x = None \<and> (\<forall>e. snd (run_fn beh x e) = []))"
  let ?s2 = "s\<lparr>has := (has s)(?c := None), env := fst (run_fn beh ?c (env s)), ran := ran s @ [?c]\<rparr>"
  let ?s3 = "enqueue w ?s2"
  let ?s4 = "?s3\<lparr>index := Suc (index s)\<rparr>"
  have rp: "run_phase beh s = ?s3"
    using a assms(4) by (simp add: run_phase_def Let_def queueWatcher_core_def)
  have q3: "queue ?s3 = take (Suc (index s)) (queue s) @ takeWhile (\<lambda>x. x \<le> w) ?rest @
                        w # dropWhile (\<lambda>x. x \<le> w) ?rest"
    using enqueue_flushing_sorted[of ?s2 w] assms by simp
  have ac: "after_check cfg ?s3 ?c = (?s4, False)"
    using a by (simp add: after_check_def)
  have step: "exec cfg beh DrainLoop s = exec cfg beh DrainLoop ?s4"
    using drain_waiting[OF assms(2,3), of cfg beh] rp ac by simp
  have dr: "drop (index ?s4) (queue ?s4) =
            takeWhile (\<lambda>x. x \<le> w) ?rest @ w # dropWhile (\<lambda>x. x \<le> w) ?rest"
    using q3 assms(3) by simp
  have "set (takeWhile (\<lambda>x. x \<le> w) ?rest @ w # dropWhile (\<lambda>x. x \<le> w) ?rest) = set ?rest \<union> {w}"
    using takeWhile_dropWhile_id[of "\<lambda>x. x \<le> w" ?rest]
    by (metis Un_commute Un_insert_left insert_is_Un list.simps(15) set_append sup_bot.right_neutral
        Un_assoc)
  then have "\<forall>x \<in> set (drop (index ?s4) (queue ?s4)).
               before_hook beh x = None \<and> (\<forall>e. snd (run_fn beh x e) = [])"
    using a dr by simp
  from drain_quiet[OF this, of cfg] obtain s' where
    "exec cfg beh DrainLoop ?s4 = Some s'" "ran s' = ran ?s4 @ drop (index ?s4) (queue ?s4)"
    by blast
  then show "\<exists>s'. exec cfg beh DrainLoop s = Some s' \<and>
             ran s' = ran s @ ?c # takeWhile (\<lambda>x. x \<le> w) ?rest @ w # dropWhile (\<lambda>x. x \<le> w) ?rest"
    using step dr by simp
qed

text \<open>
The hypotheses of the amended C2 hold in a flush of 1, 2, 4 whose watcher 2 queues watcher 3.
\<close>

theorem reentrant_enqueue_is_spliced_behind_cursor_witness:
  "(\<exists>s1. queueWatcher cfg_prod requeue3_beh 3 midflush = Some s1 \<and> queue s1 = [1, 2, 3, 4]) \<and>
   (\<exists>s'. exec cfg_prod requeue3_beh DrainLoop midflush = Some s' \<and> ran s' = [1, 2, 3, 4])"
proof -
  have h: "flushing midflush" "waiting midflush" "index midflush < length (queue midflush)"
    "has midflush 3 = None" "sorted (drop (Suc (index midflush)) (queue midflush))"
    by (simp_all add: midflush_def pending_def idle_def)
  have h2: "queue midflush ! index midflush \<noteq> 3 \<and>
     before_hook requeue3_beh (queue midflush ! index midflush) = None \<and>
     snd (run_fn requeue3_beh (queue midflush ! index midflush) (env midflush)) = [3] \<and>
     (\<forall>x \<in> set (drop (Suc (index midflush)) (queue midflush)) \<union> {3}.
         before_hook requeue3_beh x = None \<and> (\<forall>e. snd (run_fn requeue3_beh x e) = []))"
    by (simp add: midflush_def pending_def idle_def requeue3_beh_def)
  show ?thesis
    using reentrant_enqueue_is_spliced_behind_cursor[OF h, of cfg_prod requeue3_beh] h2
    by (auto simp: midflush_def pending_def idle_def)
qed






















lemma popTarget_subs [simp]: "subs (popTarget wld) = subs wld"
  by (simp add: popTarget_def)

lemma new_Watcher_consistent:
  "\<forall>d. i \<notin> set (subs wld d) \<Longrightarrow> consistent (new_Watcher i dp us lz sy) wld"
  by (simp add: consistent_def new_Watcher_def count_list_0_iff)














lemma keeps_refl [simp]: "keeps h h"
  by (simp add: keeps_def)



lemma keeps_upd_props:
  "(\<And>b. kind (f b) = kind b \<and> ob (f b) = ob b) \<Longrightarrow> keeps h (upd_obj r f h)"
  by (simp add: keeps_def upd_obj_def)

lemma keeps_map_slot [simp]: "keeps h (map_slot r k f h)"
  unfolding map_slot_def by (rule keeps_upd_props) simp













lemma map_slot_fields [simp]:
  "notified (map_slot r k f h) = notified h" "uid_dep (map_slot r k f h) = uid_dep h"
  "next_ob (map_slot r k f h) = next_ob h" "custom_calls (map_slot r k f h) = custom_calls h"
  by (simp_all add: map_slot_def upd_obj_def)

lemma custom_called_objs [simp]: "objs (custom_called cfg p h) = objs h"
  "notified (custom_called cfg p h) = notified h"
  by (simp_all add: custom_called_def)


lemma retains_refl [simp]: "retains h h"
  by (simp add: retains_def)



lemma set_add_own [simp]: "fst ` set (add_own k q ps) = insert k (fst ` set ps)"
proof (induction ps)
  case Nil
  show ?case by simp
next
  case (Cons a ps)
  obtain k' p' where a: "a = (k', p')" by (cases a)
  show ?case using Cons by (simp add: a insert_commute)
qed

lemma map_of_add_own:
  "k \<notin> fst ` set ps \<Longrightarrow> map_of (add_own k q ps) k' = (if k' = k then Some q else map_of ps k')"
proof (induction ps)
  case Nil
  show ?case by simp
next
  case (Cons a ps)
  obtain k2 p2 where a: "a = (k2, p2)" by (cases a)
  show ?case using Cons by (auto simp: a)
qed











lemma map_slot_obj [simp]:
  "kind (objs (map_slot r k f h) x) = kind (objs h x)"
  "ob (objs (map_slot r k f h) x) = ob (objs h x)"
  "extensible (objs (map_slot r k f h) x) = extensible (objs h x)"
  "isVue (objs (map_slot r k f h) x) = isVue (objs h x)"
  "shouldObserve (map_slot r k f h) = shouldObserve h"
  by (simp_all add: map_slot_def upd_obj_def)

lemma store_fields [simp]:
  "kind (objs (store r k p v h) x) = kind (objs h x)"
  "ob (objs (store r k p v h) x) = ob (objs h x)"
  "extensible (objs (store r k p v h) x) = extensible (objs h x)"
  "isVue (objs (store r k p v h) x) = isVue (objs h x)"
  "shouldObserve (store r k p v h) = shouldObserve h"
  "notified (store r k p v h) = notified h" "custom_calls (store r k p v h) = custom_calls h"
  by (simp_all add: store_def split: option.splits)

lemma custom_called_fields [simp]:
  "shouldObserve (custom_called cfg p h) = shouldObserve h"
  "custom_calls (custom_called cfg p h) =
     custom_calls h + (if \<not> production cfg \<and> s_customSetter p then 1 else 0)"
  by (simp_all add: custom_called_def)

lemma notify_fields [simp]:
  "objs (notify d h) = objs h" "notified (notify d h) = notified h @ [d]"
  "custom_calls (notify d h) = custom_calls h"
  by (simp_all add: notify_def)

lemma keeps_store [simp]: "keeps h (store r k p v h)"
  by (simp add: keeps_def)

lemma observable_store [simp]:
  "observable cfg (store r k p v (custom_called cfg' p' h)) x = observable cfg h x"
  by (simp add: observable_def)








lemma add_own_append:
  "\<forall>k'. \<not> precedes k k' \<Longrightarrow> add_own k q ps = ps @ [(k, q)]"
proof (induction ps)
  case Nil
  show ?case by simp
next
  case (Cons a ps)
  obtain k2 p2 where a: "a = (k2, p2)" by (cases a)
  show ?case using Cons by (simp add: a)
qed

lemma filter_add_own:
  "k \<notin> fst ` set ps \<Longrightarrow> filter (\<lambda>x. x \<noteq> k) (map fst (add_own k q ps)) = map fst ps"
proof (induction ps)
  case Nil
  show ?case by simp
next
  case (Cons a ps)
  obtain k2 p2 where a: "a = (k2, p2)" by (cases a)
  have "filter (\<lambda>x. x \<noteq> k) (map fst ps) = map fst ps"
    using Cons.prems by (auto simp: a filter_id_conv)
  then show ?case using Cons by (auto simp: a)
qed

lemma distinct_add_own:
  "k \<notin> fst ` set ps \<Longrightarrow> distinct (map fst ps) \<Longrightarrow> distinct (map fst (add_own k q ps))"
proof (induction ps)
  case Nil
  show ?case by simp
next
  case (Cons a ps)
  obtain k2 p2 where a: "a = (k2, p2)" by (cases a)
  show ?case using Cons by (auto simp: a)
qed

lemma precedes_trans: "precedes b k \<Longrightarrow> precedes k k' \<Longrightarrow> precedes b k'"
  by (auto simp: precedes_def split: key.splits)

lemma precedes_asym: "precedes k k' \<Longrightarrow> \<not> precedes k' k"
  by (auto simp: precedes_def split: key.splits)

lemma ordered_add_own:
  "ordered (map fst ps) \<Longrightarrow> ordered (map fst (add_own k q ps))"
proof (induction ps)
  case Nil
  show ?case by (simp add: ordered_def)
next
  case (Cons a ps)
  obtain k2 p2 where a: "a = (k2, p2)" by (cases a)
  have o: "\<forall>b \<in> fst ` set ps. \<not> precedes b k2" "ordered (map fst ps)"
    using Cons.prems by (auto simp: a ordered_def)
  show ?case
  proof (cases "precedes k k2")
    case True
    have "\<forall>b \<in> fst ` set ps. \<not> precedes b k" using o(1) precedes_trans[OF _ True] by blast
    then show ?thesis using True o Cons.prems precedes_asym[OF True] by (auto simp: a ordered_def)
  next
    case False
    have "ordered (map fst (add_own k q ps))" using Cons.IH o(2) by simp
    then show ?thesis using False o by (auto simp: a ordered_def)
  qed
qed

lemma set_prop_plain:
  assumes "kind (objs h r) = PlainObject"
    and "ob (objs h r) = None" and "ob_other (objs h r) = None"
    and "Name ''__ob__'' \<notin> set (inherited (objs h r))"
    and "\<not> isVue (objs h r)"
  shows "set_prop obs cfg valid (Ref r) key v h =
           Option.bind (assign obs cfg r (canon key) v h)
             (\<lambda>res. case res of Normal h1 \<Rightarrow> Some (h1, Normal v)
                              | Throw \<Rightarrow> Some (h, Throw)
                              | Unmodelled \<Rightarrow> Some (h, Unmodelled))"
  using assms by (simp add: set_prop_def isObject_def Let_def)

lemma assign_new_key:
  assumes "kind (objs h r) = PlainObject" and "\<not> isVue (objs h r)"
    and "k \<notin> set (map fst (props (objs h r)))"
    and "k \<noteq> Name ''__proto__''" and "k \<noteq> Name ''__ob__''"
    and "extensible (objs h r)"
  shows "assign obs cfg r k v h =
           Some (Normal (sync_isVue r k
                  (upd_obj r (\<lambda>b. b\<lparr>props := add_own k (data_slot v) (props b)\<rparr>) h)))"
proof -
  have "map_of (props (objs h r)) k = None" using assms(3) by (simp add: map_of_eq_None_iff)
  then show ?thesis using assms by (simp add: assign_def Let_def)
qed

lemma assign_new_ob:
  assumes "Name ''__ob__'' \<notin> set (map fst (props (objs h r)))" and "extensible (objs h r)"
  shows "assign obs cfg r (Name ''__ob__'') v h =
           Some (Normal (upd_obj r (\<lambda>b. b\<lparr>ob := None, ob_other := Some v\<rparr>) h))"
proof -
  have "map_of (props (objs h r)) (Name ''__ob__'') = None" using assms(1) by (simp add: map_of_eq_None_iff)
  then show ?thesis using assms by (simp add: assign_def Let_def)
qed

lemma canon_evals:
  "canon (Name ''z'') = Name ''z''" "canon (Name ''5'') = Index 5"
  "canon (Name ''__proto__'') = Name ''__proto__''" "canon (Name ''__ob__'') = Name ''__ob__''"
  by (simp_all add: canon_def digit_def)

text \<open>
An integer key given as a string is the integer key: on object 1, with the keys \<open>a\<close> and \<open>b\<close>,
the new key \<open>5\<close> comes first in the order of the keys.
\<close>

lemma set_integer_key_eval:
  "map_option (\<lambda>(h', c). (map fst (props (objs h' 1)), read_prop (objs h' 1) (Index 5), c))
     (set_prop (observe 1 cfg_dev) cfg_dev integers_only (Ref 1) (Name ''5'') (Str ''x'') heap0) =
   Some ([Index 5, Name ''a'', Name ''b''], Str ''x'', Normal (Str ''x''))"
  by (simp add: set_prop_def canon_evals isObject_def heap0_def blank_def key_in_def
        Object_prototype_keys_def assign_def sync_isVue_def upd_obj_def precedes_def read_prop_def
        data_slot_def Let_def)

text \<open>
The assignment of a number to \<open>__proto__\<close> goes to the accessor of \<open>Object.prototype\<close>:
\<open>set\<close> returns \<open>val\<close> and the object has no new property.
\<close>

lemma set_proto_key_eval:
  "set_prop (observe 1 cfg_dev) cfg_dev integers_only (Ref 2) (Name ''__proto__'') (Num 1) heap0 =
     Some (heap0, Normal (Num 1))"
  by (simp add: set_prop_def canon_evals isObject_def heap0_def blank_def key_in_def
        Object_prototype_keys_def assign_def Let_def)

text \<open>
On an object that carries an Observer the key \<open>__ob__\<close> is \<open>in\<close> the target: \<open>set\<close> assigns
plainly, the Observer is overwritten by the value, and nothing is notified.
\<close>

lemma set_ob_key_eval:
  "map_option (\<lambda>(h', c). (ob (objs h' 2), own_data (objs h' 2) (Name ''__ob__''), notified h', c))
     (set_prop (observe 1 cfg_dev) cfg_dev integers_only (Ref 2) (Name ''__ob__'') (Num 1) heap_wrapped) =
   Some (None, Some (Num 1), [], Normal (Num 1))"
  by (simp add: set_prop_def canon_evals isObject_def heap_wrapped_def heap0_def blank_def key_in_def
        Object_prototype_keys_def assign_def upd_obj_def own_data_def Let_def)

text \<open>
Claim C10, as stated, fails on a target that is not extensible. Object 3 is a plain object
without \<open>__ob__\<close>, not a Vue instance, and the key \<open>z\<close> is not in it; \<open>set\<close> reaches the plain
assignment, which throws a TypeError in this strict code: \<open>set\<close> does not return \<open>val\<close>, and
the object has no new key.
\<close>

theorem set_on_inextensible_object_counterexample:
  "kind (objs heap0 3) = PlainObject \<and> ob (objs heap0 3) = None \<and> \<not> isVue (objs heap0 3) \<and>
   \<not> key_in (objs heap0 3) (Name ''z'') \<and>
   set_prop (observe 1 cfg_dev) cfg_dev integers_only (Ref 3) (Name ''z'') (Num 1) heap0 =
     Some (heap0, Throw)"
  by (simp add: set_prop_def canon_evals isObject_def heap0_def blank_def key_in_def
        Object_prototype_keys_def assign_def Let_def)

text \<open>
Claim C10, amended. On an extensible plain object that has no \<open>__ob__\<close> (own or inherited)
and is not a Vue instance, \<open>set\<close> with a key that is not an own property of the target (in
particular with a key that is not \<open>in\<close> the target; \<open>__proto__\<close>, which is \<open>in\<close> every such
object, is left out) returns \<open>val\<close> after the plain assignment: the object has the key as an
own data property holding \<open>val\<close>, which is not reactive and reads as \<open>val\<close>; its other
properties are as before and in the same order, the new key at the place the order of own
keys gives it (behind all others, unless it is an array index); the object still has no
Observer, no other object changes, no Dep is created, none is notified, and nothing is warned.
\<close>

theorem set_on_unobserved_object_is_plain_assignment:
  assumes "kind (objs h r) = PlainObject"
    and "ob (objs h r) = None" and "ob_other (objs h r) = None"
    and "Name ''__ob__'' \<notin> set (inherited (objs h r))"
    and "\<not> isVue (objs h r)"
    and "canon key \<notin> set (map fst (props (objs h r)))"
    and "canon key \<noteq> Name ''__proto__''"
    and "extensible (objs h r)"
  shows "\<exists>h'. set_prop obs cfg valid (Ref r) key v h = Some (h', Normal v) \<and>
           own_data (objs h' r) (canon key) = Some v \<and>
           (canon key \<noteq> Name ''__ob__'' \<longrightarrow> read_prop (objs h' r) (canon key) = v) \<and>
           (\<forall>k'. k' \<noteq> canon key \<longrightarrow>
              map_of (props (objs h' r)) k' = map_of (props (objs h r)) k') \<and>
           filter (\<lambda>x. x \<noteq> canon key) (map fst (props (objs h' r))) = map fst (props (objs h r)) \<and>
           (canon key \<noteq> Name ''__ob__'' \<longrightarrow>
              canon key \<in> set (map fst (props (objs h' r))) \<and>
              (distinct (map fst (props (objs h r))) \<longrightarrow> distinct (map fst (props (objs h' r)))) \<and>
              (ordered (map fst (props (objs h r))) \<longrightarrow> ordered (map fst (props (objs h' r)))) \<and>
              ((\<forall>k'. \<not> precedes (canon key) k') \<longrightarrow>
                 map fst (props (objs h' r)) = map fst (props (objs h r)) @ [canon key])) \<and>
           ob (objs h' r) = None \<and> kind (objs h' r) = PlainObject \<and> extensible (objs h' r) \<and>
           items (objs h' r) = items (objs h r) \<and> inherited (objs h' r) = inherited (objs h r) \<and>
           isVue (objs h' r) = (canon key = Name ''_isVue'' \<and> truthy v) \<and>
           (\<forall>x. x \<noteq> r \<longrightarrow> objs h' x = objs h x) \<and>
           observers h' = observers h \<and> next_ob h' = next_ob h \<and> uid_dep h' = uid_dep h \<and>
           shouldObserve h' = shouldObserve h \<and> notified h' = notified h \<and>
           warnings h' = warnings h \<and> custom_calls h' = custom_calls h"
proof (cases "canon key = Name ''__ob__''")
  case True
  let ?h' = "upd_obj r (\<lambda>b. b\<lparr>ob := None, ob_other := Some v\<rparr>) h"
  have s: "set_prop obs cfg valid (Ref r) key v h = Some (?h', Normal v)"
    using assms True by (simp add: set_prop_plain assign_new_ob)
  have n: "map_of (props (objs h r)) (Name ''__ob__'') = None"
    using assms(6) True by (simp add: map_of_eq_None_iff)
  have f: "filter (\<lambda>x. x \<noteq> Name ''__ob__'') (map fst (props (objs h r))) = map fst (props (objs h r))"
  proof -
    have "\<forall>x \<in> set (map fst (props (objs h r))). x \<noteq> Name ''__ob__''"
      using assms(6) True by (simp del: set_map) blast
    then show ?thesis by (simp only: filter_True)
  qed
  show ?thesis
    apply (rule exI[of _ ?h'])
    using assms n f by (simp add: s True upd_obj_def own_data_def)
next
  case False
  let ?k = "canon key"
  let ?h1 = "upd_obj r (\<lambda>b. b\<lparr>props := add_own ?k (data_slot v) (props b)\<rparr>) h"
  let ?h' = "sync_isVue r ?k ?h1"
  have s: "set_prop obs cfg valid (Ref r) key v h = Some (?h', Normal v)"
    using assms False by (simp add: set_prop_plain assign_new_key)
  have nk: "?k \<notin> fst ` set (props (objs h r))" using assms(6) by simp
  have p1: "props (objs ?h1 r) = add_own ?k (data_slot v) (props (objs h r))"
    by (simp add: upd_obj_def)
  have m: "map_of (props (objs ?h1 r)) k' = (if k' = ?k then Some (data_slot v) else map_of (props (objs h r)) k')"
    for k'
    by (simp add: p1 map_of_add_own[OF nk])
  have rd: "read_prop (objs ?h1 r) ?k = v"
    unfolding read_prop_def m by (simp add: data_slot_def)
  have objs': "objs ?h' r = (objs ?h1 r)\<lparr>isVue := (if ?k = Name ''_isVue'' then truthy v else isVue (objs ?h1 r))\<rparr>"
    using rd by (auto simp: sync_isVue_def upd_obj_def p1)
  have others: "\<forall>x. x \<noteq> r \<longrightarrow> objs ?h' x = objs h x"
    by (simp add: sync_isVue_def upd_obj_def)
  have flds: "observers ?h' = observers h" "next_ob ?h' = next_ob h" "uid_dep ?h' = uid_dep h"
    "shouldObserve ?h' = shouldObserve h" "notified ?h' = notified h" "warnings ?h' = warnings h"
    "custom_calls ?h' = custom_calls h"
    by (simp_all add: sync_isVue_def upd_obj_def)
  have pr: "props (objs ?h' r) = add_own ?k (data_slot v) (props (objs h r))"
    by (simp add: objs' p1)
  have od: "own_data (objs ?h' r) ?k = Some v"
    unfolding own_data_def pr map_of_add_own[OF nk] by (simp add: data_slot_def)
  have rd': "read_prop (objs ?h' r) ?k = v"
    unfolding read_prop_def pr map_of_add_own[OF nk] by (simp add: data_slot_def)
  have mo: "\<forall>k'. k' \<noteq> ?k \<longrightarrow> map_of (props (objs ?h' r)) k' = map_of (props (objs h r)) k'"
    by (simp add: pr map_of_add_own[OF nk])
  have fl: "filter (\<lambda>x. x \<noteq> ?k) (map fst (props (objs ?h' r))) = map fst (props (objs h r))"
    by (simp add: pr filter_add_own[OF nk])
  have ks: "?k \<in> set (map fst (props (objs ?h' r)))" by (simp add: pr)
  have di: "distinct (map fst (props (objs h r))) \<longrightarrow> distinct (map fst (props (objs ?h' r)))"
    by (simp add: pr distinct_add_own[OF nk])
  have ord: "ordered (map fst (props (objs h r))) \<longrightarrow> ordered (map fst (props (objs ?h' r)))"
    by (simp add: pr ordered_add_own)
  have ap: "(\<forall>k'. \<not> precedes ?k k') \<longrightarrow>
              map fst (props (objs ?h' r)) = map fst (props (objs h r)) @ [?k]"
    unfolding pr by (simp add: add_own_append)
  have rest: "ob (objs ?h' r) = None" "kind (objs ?h' r) = PlainObject" "extensible (objs ?h' r)"
    "items (objs ?h' r) = items (objs h r)" "inherited (objs ?h' r) = inherited (objs h r)"
    "isVue (objs ?h' r) = (?k = Name ''_isVue'' \<and> truthy v)"
    unfolding objs' using assms by (simp_all add: upd_obj_def)
  have key: "canon key \<noteq> Name ''__ob__'' \<longrightarrow>
              canon key \<in> set (map fst (props (objs ?h' r))) \<and>
              (distinct (map fst (props (objs h r))) \<longrightarrow> distinct (map fst (props (objs ?h' r)))) \<and>
              (ordered (map fst (props (objs h r))) \<longrightarrow> ordered (map fst (props (objs ?h' r)))) \<and>
              ((\<forall>k'. \<not> precedes (canon key) k') \<longrightarrow>
                 map fst (props (objs ?h' r)) = map fst (props (objs h r)) @ [canon key])"
    using ks di ord ap by blast
  have rdi: "canon key \<noteq> Name ''__ob__'' \<longrightarrow> read_prop (objs ?h' r) (canon key) = v"
    using rd' by simp
  show ?thesis
    apply (rule exI[of _ ?h'])
    by (intro conjI) (rule s od rdi mo fl key rest others flds)+
qed

text \<open>
The hypotheses of the amended C10 hold for object 2 and the new key \<open>z\<close>.
\<close>

theorem set_on_unobserved_object_is_plain_assignment_witness:
  "kind (objs heap0 2) = PlainObject \<and> ob (objs heap0 2) = None \<and> ob_other (objs heap0 2) = None \<and>
   Name ''__ob__'' \<notin> set (inherited (objs heap0 2)) \<and> \<not> isVue (objs heap0 2) \<and>
   canon (Name ''z'') \<notin> set (map fst (props (objs heap0 2))) \<and>
   canon (Name ''z'') \<noteq> Name ''__proto__'' \<and> extensible (objs heap0 2) \<and>
   (\<exists>h'. set_prop (observe 1 cfg_dev) cfg_dev integers_only (Ref 2) (Name ''z'') (Num 7) heap0 =
           Some (h', Normal (Num 7)) \<and>
         own_data (objs h' 2) (Name ''z'') = Some (Num 7) \<and>
         read_prop (objs h' 2) (Name ''z'') = Num 7 \<and>
         map fst (props (objs h' 2)) = [Name ''c'', Name ''z''] \<and>
         notified h' = [] \<and> uid_dep h' = 0)"
proof -
  have hyp: "kind (objs heap0 2) = PlainObject" "ob (objs heap0 2) = None"
    "ob_other (objs heap0 2) = None" "Name ''__ob__'' \<notin> set (inherited (objs heap0 2))"
    "\<not> isVue (objs heap0 2)" "canon (Name ''z'') \<notin> set (map fst (props (objs heap0 2)))"
    "canon (Name ''z'') \<noteq> Name ''__proto__''" "extensible (objs heap0 2)"
    by (simp_all add: heap0_def blank_def canon_evals)
  have pre: "\<forall>k'. \<not> precedes (Name ''z'') k'" by (simp add: precedes_def)
  have ks: "map fst (props (objs heap0 2)) = [Name ''c'']" "notified heap0 = []" "uid_dep heap0 = 0"
    by (simp_all add: heap0_def blank_def)
  from set_on_unobserved_object_is_plain_assignment[OF hyp, of "observe 1 cfg_dev" cfg_dev
      integers_only "Num 7"]
  obtain h' where
    a: "set_prop (observe 1 cfg_dev) cfg_dev integers_only (Ref 2) (Name ''z'') (Num 7) heap0 =
          Some (h', Normal (Num 7))"
    and b: "own_data (objs h' 2) (canon (Name ''z'')) = Some (Num 7)"
    and c: "canon (Name ''z'') \<noteq> Name ''__ob__'' \<longrightarrow> read_prop (objs h' 2) (canon (Name ''z'')) = Num 7"
    and d: "canon (Name ''z'') \<noteq> Name ''__ob__'' \<longrightarrow>
              canon (Name ''z'') \<in> set (map fst (props (objs h' 2))) \<and>
              (distinct (map fst (props (objs heap0 2))) \<longrightarrow> distinct (map fst (props (objs h' 2)))) \<and>
              (ordered (map fst (props (objs heap0 2))) \<longrightarrow> ordered (map fst (props (objs h' 2)))) \<and>
              ((\<forall>k'. \<not> precedes (canon (Name ''z'')) k') \<longrightarrow>
                 map fst (props (objs h' 2)) = map fst (props (objs heap0 2)) @ [canon (Name ''z'')])"
    and e: "notified h' = notified heap0" "uid_dep h' = uid_dep heap0"
    by (elim exE conjE)
  have b': "own_data (objs h' 2) (Name ''z'') = Some (Num 7)" using b by (simp add: canon_evals)
  have c': "read_prop (objs h' 2) (Name ''z'') = Num 7" using c by (simp add: canon_evals)
  have d': "map fst (props (objs h' 2)) = [Name ''c'', Name ''z'']"
    using d pre by (simp add: canon_evals ks)
  have e': "notified h' = []" "uid_dep h' = 0" using e by (simp_all add: ks)
  have "\<exists>h'. set_prop (observe 1 cfg_dev) cfg_dev integers_only (Ref 2) (Name ''z'') (Num 7) heap0 =
           Some (h', Normal (Num 7)) \<and>
         own_data (objs h' 2) (Name ''z'') = Some (Num 7) \<and>
         read_prop (objs h' 2) (Name ''z'') = Num 7 \<and>
         map fst (props (objs h' 2)) = [Name ''c'', Name ''z''] \<and>
         notified h' = [] \<and> uid_dep h' = 0"
    by (rule exI[of _ h']) (intro conjI a b' c' d' e')
  then show ?thesis using hyp by (simp only: simp_thms)
qed

end
